theory Spec2Isabelle
  imports Main "HOL-Library.Word"
begin

unbundle bit_operations_syntax

section \<open>Data model of \<open>src/mem/metaslab.h\<close>\<close>

text \<open>
  \<open>size_t\<close> is a machine word whose width depends on the target. It is modelled as
  \<open>'a word\<close>; the two targets the source distinguishes (\<open>bits::is64()\<close>) are
  \<open>64 word\<close> and \<open>32 word\<close>. \<open>uint16_t\<close> and \<open>uint8_t\<close> are fixed.
\<close>

type_synonym uint16_t = "16 word"
type_synonym uint8_t = "8 word"

text \<open>
  The two ways the subsystem stops the process (\<open>error(...)\<close> in \<open>follow_next\<close> and in
  \<open>debug_slab_acyclic_free_list\<close>), a failed \<open>assert\<close>, and the trap of a
  \<open>%\<close> by zero.
\<close>

datatype error = UseAfterFree | DoubleFree | AssertionFailure | DivisionByZero

text \<open>
  The preprocessor switches that select code in the header: \<open>CHECK_CLIENT\<close> (hardened
  free-list words), \<open>NDEBUG\<close> (release build: \<open>assert\<close> and the debug walks are compiled
  out) and \<open>SNMALLOC_CHEAP_CHECKS\<close>.
\<close>

record build =
  CHECK_CLIENT :: bool
  NDEBUG :: bool
  SNMALLOC_CHEAP_CHECKS :: bool

text \<open>
  Class \<open>Metaslab\<close>. The fields \<open>head\<close> and \<open>link\<close> have type
  \<open>Mod<SLAB_SIZE, uint16_t>\<close>; the record holds the \<open>uint16_t\<close> value that reading them
  yields.
\<close>

record Metaslab =
  used :: uint16_t
  head :: uint16_t
  link :: uint16_t
  sizeclass :: uint8_t
  "next" :: uint8_t

subsection \<open>Occupancy counter\<close>

definition add_use :: "Metaslab \<Rightarrow> Metaslab" where
  "add_use m = m\<lparr>used := used m + 1\<rparr>"

definition sub_use :: "Metaslab \<Rightarrow> Metaslab" where
  "sub_use m = m\<lparr>used := used m - 1\<rparr>"

definition set_unused :: "Metaslab \<Rightarrow> Metaslab" where
  "set_unused m = m\<lparr>used := 0\<rparr>"

definition is_unused :: "Metaslab \<Rightarrow> bool" where
  "is_unused m = (used m = 0)"

subsection \<open>What the header takes from elsewhere\<close>

text \<open>
  \<open>SLAB_SIZE\<close>, \<open>sizeclass_to_size\<close>, \<open>get_initial_link\<close> and
  \<open>remove_cache_friendly_offset\<close> are declared outside this header (\<open>sizeclass.h\<close> and
  the allocator configuration); the header only uses them. They are parameters of the
  model. \<open>get_initial_link\<close> and \<open>remove_cache_friendly_offset\<close> yield offsets into the
  slab, which the header stores in \<open>uint16_t\<close> variables.
\<close>

type_synonym 'a config =
  "'a word \<times> (uint8_t \<Rightarrow> 'a word) \<times> (uint8_t \<Rightarrow> bool \<Rightarrow> uint16_t)
   \<times> (uint16_t \<Rightarrow> uint8_t \<Rightarrow> uint16_t)"

definition SLAB_SIZE :: "'a::len config \<Rightarrow> 'a word" where
  "SLAB_SIZE cfg = fst cfg"

definition sizeclass_to_size :: "'a::len config \<Rightarrow> uint8_t \<Rightarrow> 'a word" where
  "sizeclass_to_size cfg = fst (snd cfg)"

definition get_initial_link :: "'a::len config \<Rightarrow> uint8_t \<Rightarrow> bool \<Rightarrow> uint16_t" where
  "get_initial_link cfg = fst (snd (snd cfg))"

definition remove_cache_friendly_offset ::
  "'a::len config \<Rightarrow> uint16_t \<Rightarrow> uint8_t \<Rightarrow> uint16_t" where
  "remove_cache_friendly_offset cfg = snd (snd (snd cfg))"

text \<open>
  Modelled from the spec: the class template \<open>Mod<SLAB_SIZE, uint16_t>\<close> is defined in
  \<open>ds/helpers.h\<close>, outside this header. The specification describes it as an unsigned
  integer whose value is taken modulo the slab size on every assignment; this is what
  assigning \<open>v\<close> to such a field stores.
\<close>

definition Mod_assign :: "'a::len word \<Rightarrow> uint16_t \<Rightarrow> uint16_t" where
  "Mod_assign len v = ucast ((ucast v :: 'a word) mod len)"

subsection \<open>Fullness\<close>

definition is_full :: "Metaslab \<Rightarrow> bool" where
  "is_full m = (link m = 1)"

text \<open>
  \<open>set_full\<close>: the two \<open>assert\<close>s are present unless \<open>NDEBUG\<close> is defined; then
  \<open>link = 1\<close>.
\<close>

definition set_full :: "build \<Rightarrow> 'a::len config \<Rightarrow> Metaslab \<Rightarrow> error + Metaslab" where
  "set_full b cfg m =
     (if \<not> NDEBUG b \<and> \<not> (head m = 1) then Inl AssertionFailure
      else if \<not> NDEBUG b \<and> \<not> (link m \<noteq> 1) then Inl AssertionFailure
      else Inr (m\<lparr>link := Mod_assign (SLAB_SIZE cfg) 1\<rparr>))"

subsection \<open>Free-list words\<close>

text \<open>
  \<open>bits::BITS\<close> is the width of \<open>size_t\<close>, here \<open>LENGTH('a)\<close>; \<open>POISON\<close> is
  \<open>static_cast<size_t>(bits::is64() ? 0xDEADBEEFDEAD0000 : 0xDEAD0000)\<close>.
\<close>

definition POISON :: "'a::len word" where
  "POISON = (if LENGTH('a) = 64 then 0xDEADBEEFDEAD0000 else 0xDEAD0000)"

text \<open>
  The word \<open>store_next\<close> writes under \<open>CHECK_CLIENT\<close>:
  \<open>head ^ POISON ^ (static_cast<size_t>(head) << (bits::BITS - 16))\<close>, and the value
  \<open>follow_next\<close> compares with \<open>0xFFFF\<close>:
  \<open>(next ^ POISON) ^ (next << (bits::BITS - 16))\<close>.
\<close>

definition encoded :: "uint16_t \<Rightarrow> 'a::len word" where
  "encoded h = ucast h XOR POISON XOR push_bit (LENGTH('a) - 16) (ucast h)"

definition recovered :: "'a::len word \<Rightarrow> 'a word" where
  "recovered nxt = (nxt XOR POISON) XOR push_bit (LENGTH('a) - 16) nxt"

text \<open>
  Memory as the header sees it: the \<open>size_t\<close> found at an address. \<open>store_next\<close> and
  \<open>follow_next\<close> access exactly one such word, at the address they are given; the two
  debug walks only read.
\<close>

type_synonym 'a memory = "'a word \<Rightarrow> 'a word"

text \<open>
  Modelled from the spec: \<open>pointer_offset\<close> is defined in \<open>ds/helpers.h\<close>, outside this
  header. The specification speaks of the block at an offset inside the slab: the address
  \<open>diff\<close> bytes after \<open>base\<close>.
\<close>

definition pointer_offset :: "'a::len word \<Rightarrow> uint16_t \<Rightarrow> 'a word" where
  "pointer_offset base diff = base + ucast diff"

definition store_next :: "build \<Rightarrow> 'a::len memory \<Rightarrow> 'a word \<Rightarrow> uint16_t \<Rightarrow> 'a memory" where
  "store_next b mem p h =
     (if \<not> CHECK_CLIENT b then mem(p := ucast h) else mem(p := encoded h))"

definition follow_next :: "build \<Rightarrow> 'a::len memory \<Rightarrow> 'a word \<Rightarrow> error + uint16_t" where
  "follow_next b mem node =
     (let nxt = mem node in
      if CHECK_CLIENT b \<and> recovered nxt > 0xFFFF then Inl UseAfterFree
      else Inr (ucast nxt))"

subsection \<open>Cycle check\<close>

text \<open>
  The \<open>while\<close> loop of \<open>debug_slab_acyclic_free_list\<close>, with its three local variables
  as arguments. The loop need not end on every state it could be started in, so it is a
  partial function: \<open>None\<close> stands for a loop that runs forever.
\<close>

partial_function (option) acyclic_loop ::
  "build \<Rightarrow> 'a::len memory \<Rightarrow> 'a word \<Rightarrow> uint16_t \<Rightarrow> uint16_t \<Rightarrow> bool \<Rightarrow> (error + unit) option"
where
  "acyclic_loop b mem slab cur cur_slow both =
     (if cur AND 1 \<noteq> 1 then
        (case follow_next b mem (pointer_offset slab cur) of
           Inl e \<Rightarrow> Some (Inl e)
         | Inr cur' \<Rightarrow>
             (case (if both then follow_next b mem (pointer_offset slab cur_slow)
                    else Inr cur_slow) of
                Inl e \<Rightarrow> Some (Inl e)
              | Inr slow' \<Rightarrow>
                  if cur' = slow' then Some (Inl DoubleFree)
                  else acyclic_loop b mem slab cur' slow' (\<not> both)))
      else Some (Inr ()))"

definition debug_slab_acyclic_free_list ::
  "build \<Rightarrow> 'a::len memory \<Rightarrow> Metaslab \<Rightarrow> 'a word \<Rightarrow> (error + unit) option"
where
  "debug_slab_acyclic_free_list b mem m slab =
     (if NDEBUG b then Some (Inr ())
      else acyclic_loop b mem slab (head m) (head m) False)"

subsection \<open>Accounting walk\<close>

text \<open>
  The \<open>while\<close> loop of \<open>debug_slab_invariant\<close>; \<open>size\<close> and \<open>offset\<close> are the locals
  computed before it, \<open>curr\<close> and \<open>accounted_for\<close> the ones it updates. A \<open>%\<close> by a zero
  \<open>size\<close> traps.
\<close>

partial_function (option) invariant_walk ::
  "build \<Rightarrow> 'a::len config \<Rightarrow> 'a memory \<Rightarrow> Metaslab \<Rightarrow> 'a word \<Rightarrow> 'a word \<Rightarrow> 'a word
   \<Rightarrow> uint16_t \<Rightarrow> 'a word \<Rightarrow> (error + uint16_t \<times> 'a word) option"
where
  "invariant_walk b cfg mem m slab sz offset cur accounted_for =
     (if cur AND 1 \<noteq> 1 then
        if sz = 0 then Some (Inl DivisionByZero)
        else if (ucast (remove_cache_friendly_offset cfg cur (sizeclass m)) - offset) mod sz \<noteq> 0
          then Some (Inl AssertionFailure)
        else if \<not> (SLAB_SIZE cfg \<ge> accounted_for + sz) then Some (Inl AssertionFailure)
        else if \<not> (cur \<noteq> link m) then Some (Inl AssertionFailure)
        else
          (case follow_next b mem (pointer_offset slab cur) of
             Inl e \<Rightarrow> Some (Inl e)
           | Inr cur' \<Rightarrow>
               invariant_walk b cfg mem m slab sz offset cur' (accounted_for + sz))
      else Some (Inr (cur, accounted_for)))"

text \<open>The statements of \<open>debug_slab_invariant\<close> after the loop.\<close>

definition invariant_tail ::
  "'a::len config \<Rightarrow> Metaslab \<Rightarrow> bool \<Rightarrow> 'a word \<Rightarrow> 'a word \<Rightarrow> uint16_t \<Rightarrow> 'a word
   \<Rightarrow> error + unit"
where
  "invariant_tail cfg m is_short sz offset cur accounted_for =
     (if cur \<noteq> 1 \<and> sz = 0 then Inl DivisionByZero
      else if cur \<noteq> 1
            \<and> (ucast (remove_cache_friendly_offset cfg (cur AND NOT 1) (sizeclass m)) - offset)
                 mod sz \<noteq> 0
        then Inl AssertionFailure
      else if cur \<noteq> 1 \<and> \<not> (link m = get_initial_link cfg (sizeclass m) is_short)
        then Inl AssertionFailure
      else
        (let accounted_for1 =
               (if cur \<noteq> 1 then accounted_for + (SLAB_SIZE cfg - (ucast cur - 1))
                else accounted_for)
         in if \<not> (\<not> is_full m) then Inl AssertionFailure
            else if \<not> (SLAB_SIZE cfg = accounted_for1 + sz) then Inl AssertionFailure
            else Inr ()))"

definition debug_slab_invariant ::
  "build \<Rightarrow> 'a::len config \<Rightarrow> 'a memory \<Rightarrow> Metaslab \<Rightarrow> bool \<Rightarrow> 'a word \<Rightarrow> (error + unit) option"
where
  "debug_slab_invariant b cfg mem m is_short slab =
     (if NDEBUG b \<or> SNMALLOC_CHEAP_CHECKS b then Some (Inr ())
      else
        (let sz = sizeclass_to_size cfg (sizeclass m);
             offset = ucast (get_initial_link cfg (sizeclass m) is_short);
             accounted_for = ucast (used m) * sz + offset
         in if is_full m then
              (if \<not> (SLAB_SIZE cfg = accounted_for) then Some (Inl AssertionFailure)
               else Some (Inr ()))
            else if \<not> (SLAB_SIZE cfg > accounted_for) then Some (Inl AssertionFailure)
            else
              (case debug_slab_acyclic_free_list b mem m slab of
                 None \<Rightarrow> None
               | Some (Inl e) \<Rightarrow> Some (Inl e)
               | Some (Inr u) \<Rightarrow>
                   (case invariant_walk b cfg mem m slab sz offset (head m) accounted_for of
                      None \<Rightarrow> None
                    | Some (Inl e) \<Rightarrow> Some (Inl e)
                    | Some (Inr (cur, accounted_for')) \<Rightarrow>
                        Some (invariant_tail cfg m is_short sz offset cur accounted_for')))))"

section \<open>Notions used in the statements\<close>

text \<open>
  An offset is a bump cursor when its bottom bit is 1 (the test of both \<open>while\<close> loops).
\<close>

definition bump_tagged :: "uint16_t \<Rightarrow> bool" where
  "bump_tagged c = (c AND 1 = 1)"

text \<open>
  The offset that follows \<open>c\<close> on the free list of the slab at \<open>slab\<close>: the low 16 bits
  of the word stored in block \<open>c\<close>, which is what \<open>follow_next\<close> returns when it returns.
  \<open>segment mem slab h n\<close> is the offset reached from \<open>h\<close> after \<open>n\<close> links.
\<close>

definition next_offset :: "'a::len memory \<Rightarrow> 'a word \<Rightarrow> uint16_t \<Rightarrow> uint16_t" where
  "next_offset mem slab c = ucast (mem (pointer_offset slab c))"

definition segment :: "'a::len memory \<Rightarrow> 'a word \<Rightarrow> uint16_t \<Rightarrow> nat \<Rightarrow> uint16_t" where
  "segment mem slab h n = (next_offset mem slab ^^ n) h"

text \<open>The word in block \<open>c\<close> passes the check of \<open>follow_next\<close>.\<close>

definition decodes :: "build \<Rightarrow> 'a::len memory \<Rightarrow> 'a word \<Rightarrow> uint16_t \<Rightarrow> bool" where
  "decodes b mem slab c = (follow_next b mem (pointer_offset slab c) \<noteq> Inl UseAfterFree)"

text \<open>
  The free-list segment that starts at \<open>h\<close> has exactly \<open>n\<close> blocks: the offset after
  \<open>n\<close> links is the first bump cursor.
\<close>

definition free_list_ends :: "'a::len memory \<Rightarrow> 'a word \<Rightarrow> uint16_t \<Rightarrow> nat \<Rightarrow> bool" where
  "free_list_ends mem slab h n =
     (bump_tagged (segment mem slab h n) \<and> (\<forall>i<n. \<not> bump_tagged (segment mem slab h i)))"


text \<open>
  The cycle check after \<open>k\<close> iterations holds the offsets \<open>segment \<dots> k\<close> (hare) and
  \<open>segment \<dots> (k div 2)\<close> (tortoise). \<open>stops\<close> says that the next iteration leaves the
  loop, \<open>outcome\<close> how.
\<close>

definition stops :: "build \<Rightarrow> 'a::len memory \<Rightarrow> 'a word \<Rightarrow> uint16_t \<Rightarrow> nat \<Rightarrow> bool" where
  "stops b mem slab h k =
     (bump_tagged (segment mem slab h k)
      \<or> \<not> decodes b mem slab (segment mem slab h k)
      \<or> (odd k \<and> \<not> decodes b mem slab (segment mem slab h (k div 2)))
      \<or> segment mem slab h (Suc k) = segment mem slab h (Suc k div 2))"

definition outcome :: "build \<Rightarrow> 'a::len memory \<Rightarrow> 'a word \<Rightarrow> uint16_t \<Rightarrow> nat \<Rightarrow> error + unit" where
  "outcome b mem slab h k =
     (if bump_tagged (segment mem slab h k) then Inr ()
      else if \<not> decodes b mem slab (segment mem slab h k)
              \<or> (odd k \<and> \<not> decodes b mem slab (segment mem slab h (k div 2)))
        then Inl UseAfterFree
      else Inl DoubleFree)"


subsection \<open>Example states\<close>

text \<open>
  A hardened debug build and a plain one; a 64-bit configuration with 64 KiB slabs, blocks
  of 64 bytes, the first block of a short slab at offset 1024 and no cache-friendly offset;
  the same on a 32-bit target.
\<close>

definition hardened_debug :: build where
  "hardened_debug = \<lparr>CHECK_CLIENT = True, NDEBUG = False, SNMALLOC_CHEAP_CHECKS = False\<rparr>"

definition plain_debug :: build where
  "plain_debug = \<lparr>CHECK_CLIENT = False, NDEBUG = False, SNMALLOC_CHEAP_CHECKS = False\<rparr>"

definition short_slab_cfg :: "'a::len config" where
  "short_slab_cfg =
     (65536, \<lambda>sc. 64, \<lambda>sc is_short. if is_short then 1024 else 0, \<lambda>off sc. off)"

text \<open>
  A short slab at address \<open>0x7F0000010000\<close> with three blocks in use, the bump cursor at
  offset 1408 and two freed blocks, 1280 and then 1152, on the free list.
\<close>

definition two_free_mem :: "64 memory" where
  "two_free_mem = (\<lambda>a. 0)(0x7F0000010500 := encoded 1152, 0x7F0000010480 := encoded 1409)"

definition two_free :: Metaslab where
  "two_free = \<lparr>used = 3, head = 1280, link = 1024, sizeclass = 0, next = 0\<rparr>"

text \<open>The same slab after block 1280 was freed a second time: its word points to itself.\<close>

definition double_free_mem :: "64 memory" where
  "double_free_mem = (\<lambda>a. 0)(0x7F0000010500 := encoded 1280)"

text \<open>
  The same slab with the word of block 1280 overwritten by the raw value 1409, as a write
  through a stale pointer would leave it.
\<close>

definition stale_write_mem :: "64 memory" where
  "stale_write_mem = (\<lambda>a. 0)(0x7F0000010500 := 1409)"

text \<open>
  A short slab just carved out, and one with every block in use; no block of either has
  been written yet.
\<close>

definition zeroed_mem :: "64 memory" where
  "zeroed_mem = (\<lambda>a. 0)"

definition fresh :: Metaslab where
  "fresh = \<lparr>used = 0, head = 1089, link = 1024, sizeclass = 0, next = 0\<rparr>"

definition all_used :: Metaslab where
  "all_used = \<lparr>used = 1008, head = 1, link = 1, sizeclass = 0, next = 0\<rparr>"

text \<open>
  A slab of four blocks of 64 bytes on a 64-bit target, at address \<open>0x1000\<close>: with every
  block allocated, and after the block at offset 128 was released again. The word at 8
  bytes into the block at offset 64 has been written by the client.
\<close>

definition tiny_cfg :: "'a::len config" where
  "tiny_cfg = (256, \<lambda>sc. 64, \<lambda>sc is_short. 0, \<lambda>off sc. off)"




section \<open>Claiming and releasing blocks\<close>

text \<open>
  The operations that claim and release blocks write \<open>head\<close> and \<open>link\<close> and call
  \<open>add_use\<close>, \<open>sub_use\<close>, \<open>set_full\<close>, \<open>store_next\<close> and \<open>follow_next\<close>; they belong
  to the slab class, which this header does not contain. This section models them from the
  specification, and from the comments and assertions of the header where the
  specification leaves a choice open. The functions of the header are used as they are.
\<close>

subsection \<open>Layout of a slab\<close>

text \<open>
  Modelled from the spec: a slab is subdivided into equal-size blocks whose size is that of
  its size class. \<open>block_size\<close> is this size as a number.
\<close>

definition block_size :: "'a::len config \<Rightarrow> uint8_t \<Rightarrow> nat" where
  "block_size cfg sc = unat (sizeclass_to_size cfg sc)"

text \<open>
  Modelled from the spec: \<open>get_initial_link\<close> is the offset of the reserved link block;
  the header calls it the first entry of the slab. \<open>first_block\<close> is this offset as a
  number.
\<close>

definition first_block :: "'a::len config \<Rightarrow> uint8_t \<Rightarrow> bool \<Rightarrow> nat" where
  "first_block cfg sc is_short = unat (get_initial_link cfg sc is_short)"

text \<open>
  Modelled from the spec: the blocks of a slab lie one after the other from the first
  block to the end of the slab. \<open>block_count\<close> is the number of blocks that fit.
\<close>

definition block_count :: "'a::len config \<Rightarrow> uint8_t \<Rightarrow> bool \<Rightarrow> nat" where
  "block_count cfg sc is_short =
     (unat (SLAB_SIZE cfg) - first_block cfg sc is_short) div block_size cfg sc"

text \<open>
  Modelled from the spec: the offset of block \<open>i\<close>, counted from the first block, as it
  is stored in a \<open>uint16_t\<close>.
\<close>

definition block_at :: "'a::len config \<Rightarrow> uint8_t \<Rightarrow> bool \<Rightarrow> nat \<Rightarrow> uint16_t" where
  "block_at cfg sc is_short i = of_nat (first_block cfg sc is_short + i * block_size cfg sc)"

text \<open>Modelled from the spec: the offsets of the first \<open>k\<close> blocks of the slab.\<close>

definition blocks_below :: "'a::len config \<Rightarrow> uint8_t \<Rightarrow> bool \<Rightarrow> nat \<Rightarrow> uint16_t set" where
  "blocks_below cfg sc is_short k = block_at cfg sc is_short ` {..<k}"

text \<open>Modelled from the spec: the offsets of all blocks of the slab.\<close>

definition slab_blocks :: "'a::len config \<Rightarrow> uint8_t \<Rightarrow> bool \<Rightarrow> uint16_t set" where
  "slab_blocks cfg sc is_short = blocks_below cfg sc is_short (block_count cfg sc is_short)"



subsection \<open>Operations\<close>









subsection \<open>What the operations maintain\<close>




section \<open>Occupancy counter arithmetic\<close>

text \<open>
  C10: \<open>used\<close> is a \<open>uint16_t\<close>, so \<open>sub_use\<close> at \<open>used = 0\<close> wraps to 65535, after
  which \<open>is_unused\<close> is false and \<open>add_use\<close> brings the counter back to 0; for every
  starting value \<open>add_use\<close> followed by \<open>sub_use\<close> leaves \<open>used\<close> unchanged, and
  \<open>sub_use\<close> is subtraction modulo \<open>2 ^ 16\<close>.
\<close>

theorem used_counter_wraps:
  "used (sub_use (m\<lparr>used := 0\<rparr>)) = 65535
   \<and> \<not> is_unused (sub_use (m\<lparr>used := 0\<rparr>))
   \<and> used (add_use (sub_use (m\<lparr>used := 0\<rparr>))) = 0
   \<and> used (sub_use (add_use m)) = used m
   \<and> unat (used (sub_use m)) = (unat (used m) + 65535) mod 2 ^ 16"
proof -
  have "unat (used m - 1) = (unat (used m) + 65535) mod 2 ^ 16"
  proof -
    have "used m - 1 = used m + 65535" by simp
    then show ?thesis by (simp only: unat_word_ariths) simp
  qed
  then show ?thesis
    by (simp add: sub_use_def add_use_def is_unused_def)
qed

section \<open>Properties of the free-list word encoding\<close>

lemma POISON_push: "\<exists>c. (POISON::'a::len word) = push_bit 16 c"
proof -
  have "(0xDEADBEEFDEAD0000::'a word) = push_bit 16 0xDEADBEEFDEAD" by simp
  moreover have "(0xDEAD0000::'a word) = push_bit 16 0xDEAD" by simp
  ultimately show ?thesis unfolding POISON_def by metis
qed

lemma POISON_low: "take_bit 16 (POISON::'a::len word) = 0"
proof -
  obtain c where c: "(POISON::'a word) = push_bit 16 c" using POISON_push by blast
  have "take_bit 16 (push_bit 16 c) = 0" by (simp add: take_bit_push_bit)
  then show ?thesis unfolding c .
qed

lemma POISON_shift:
  assumes "16 \<le> LENGTH('a::len)"
  shows "push_bit (LENGTH('a) - 16) (POISON::'a word) = 0"
proof -
  obtain c where c: "(POISON::'a word) = push_bit 16 c" using POISON_push by blast
  have "push_bit (LENGTH('a) - 16) (push_bit 16 c) = 0"
    using assms by (simp add: push_bit_word_beyond)
  then show ?thesis unfolding c .
qed

lemma le_FFFF_iff:
  assumes "16 < LENGTH('a::len)"
  shows "((w::'a word) \<le> 0xFFFF) = (take_bit 16 w = w)"
proof -
  have "(65535::nat) < 2 ^ LENGTH('a)"
    using assms power_strict_increasing[of 16 "LENGTH('a)" "2::nat"] by simp
  then have "unat (of_nat 65535 :: 'a word) = 65535"
    by (simp only: unat_of_nat) simp
  then have "(w \<le> 0xFFFF) = (unat w < 2 ^ 16)"
    by (simp add: word_le_nat_alt) arith
  also have "\<dots> = (take_bit 16 (unat w) = unat w)"
    by (simp add: take_bit_nat_eq_self_iff)
  also have "\<dots> = (take_bit 16 w = w)"
    by (simp add: word_unat_eq_iff unsigned_take_bit_eq)
  finally show ?thesis .
qed

lemma le_FFFF_drop_bit:
  assumes "16 < LENGTH('a::len)"
  shows "((w::'a word) \<le> 0xFFFF) = (drop_bit 16 w = 0)"
  using assms by (simp add: le_FFFF_iff take_bit_eq_self_iff_drop_bit_eq_0)

lemma take_bit_16_ucast: "take_bit 16 (ucast (h::uint16_t) :: 'a::len word) = ucast h"
  by (rule bit_word_eqI) (auto simp: bit_simps dest: bit_imp_le_length)

lemma ucast_ucast_16: "16 \<le> LENGTH('a::len) \<Longrightarrow> ucast (ucast (h :: uint16_t) :: 'a word) = h"
  by (rule bit_word_eqI) (auto simp: bit_simps)

lemma ucast_ucast_take: "ucast (ucast (w :: 'a::len word) :: uint16_t) = take_bit 16 w"
  by (rule bit_word_eqI) (auto simp: bit_simps)

lemma ucast_take_bit_16: "(ucast (take_bit 16 (w :: 'a::len word)) :: uint16_t) = ucast w"
  by (rule bit_word_eqI) (auto simp: bit_simps)

lemma push_take:
  assumes "32 \<le> LENGTH('a::len)"
  shows "push_bit (LENGTH('a) - 16) (take_bit 16 w) = push_bit (LENGTH('a) - 16) (w::'a word)"
  using assms by (intro bit_word_eqI) (auto simp: bit_simps)

lemma recovered_xor:
  "recovered (a XOR b) = recovered a XOR (b XOR push_bit (LENGTH('a) - 16) (b::'a::len word))"
  unfolding recovered_def by (simp add: ac_simps)

lemma recovered_encoded:
  assumes "32 \<le> LENGTH('a::len)"
  shows "recovered (encoded h :: 'a word) = ucast h"
proof -
  have "push_bit (LENGTH('a) - 16) (push_bit (LENGTH('a) - 16) (ucast h :: 'a word)) = 0"
    using assms by (simp add: push_bit_word_beyond)
  moreover have "push_bit (LENGTH('a) - 16) (POISON::'a word) = 0"
    using assms by (simp add: POISON_shift)
  ultimately show ?thesis
    unfolding recovered_def encoded_def by (simp add: ac_simps)
qed

lemma take_bit_recovered:
  assumes "32 \<le> LENGTH('a::len)"
  shows "take_bit 16 (recovered w) = take_bit 16 (w :: 'a word)"
  using assms unfolding recovered_def
  by (simp add: take_bit_xor POISON_low take_bit_push_bit)

lemma ucast_recovered:
  assumes "32 \<le> LENGTH('a::len)"
  shows "(ucast (recovered w) :: uint16_t) = ucast (w :: 'a word)"
proof -
  have "(ucast (take_bit 16 (recovered w)) :: uint16_t) = ucast (take_bit 16 w)"
    using assms by (simp only: take_bit_recovered)
  then show ?thesis by (simp only: ucast_take_bit_16)
qed

lemma ucast_encoded:
  assumes "32 \<le> LENGTH('a::len)"
  shows "ucast (encoded h :: 'a word) = h"
proof -
  have "ucast (recovered (encoded h :: 'a word)) = h"
    using assms by (simp add: recovered_encoded ucast_ucast_16)
  then show ?thesis using assms by (simp add: ucast_recovered)
qed

lemma encoded_passes:
  assumes "32 \<le> LENGTH('a::len)"
  shows "\<not> recovered (encoded h :: 'a word) > 0xFFFF"
  using assms by (simp add: not_less recovered_encoded le_FFFF_iff take_bit_16_ucast)

lemma valid_iff_encoded:
  assumes "32 \<le> LENGTH('a::len)"
  shows "(recovered w \<le> 0xFFFF) = (w = (encoded (ucast w) :: 'a word))"
proof -
  let ?s = "push_bit (LENGTH('a) - 16) w"
  have e: "(encoded (ucast w) :: 'a word) = take_bit 16 w XOR POISON XOR ?s"
    using assms by (simp add: encoded_def ucast_ucast_take push_take)
  have "(recovered w \<le> 0xFFFF) = (take_bit 16 (recovered w) = recovered w)"
    using assms by (simp add: le_FFFF_iff)
  also have "\<dots> = (take_bit 16 w = w XOR POISON XOR ?s)"
    using assms by (simp add: take_bit_recovered) (simp add: recovered_def ac_simps)
  also have "\<dots> = (w = take_bit 16 w XOR POISON XOR ?s)"
  proof
    assume h: "take_bit 16 w = w XOR POISON XOR ?s"
    have "w = (w XOR POISON XOR ?s) XOR POISON XOR ?s"
      by (simp add: ac_simps)
    then show "w = take_bit 16 w XOR POISON XOR ?s"
      unfolding h[symmetric] .
  next
    assume h: "w = take_bit 16 w XOR POISON XOR ?s"
    have "take_bit 16 w = (take_bit 16 w XOR POISON XOR ?s) XOR POISON XOR ?s"
      by (simp add: ac_simps)
    then show "take_bit 16 w = w XOR POISON XOR ?s"
      using h by simp
  qed
  finally show ?thesis unfolding e .
qed

lemma not_le_FFFF_bit:
  assumes "16 < LENGTH('a::len)" "bit (x::'a word) j" "16 \<le> j"
  shows "\<not> x \<le> 0xFFFF"
proof
  assume "x \<le> 0xFFFF"
  then have "take_bit 16 x = x" using assms(1) by (simp add: le_FFFF_iff)
  then have "bit (take_bit 16 x) j" using assms(2) by simp
  then show False using assms(3) by (simp add: bit_simps)
qed

lemma flipped_detected:
  assumes L: "32 \<le> LENGTH('a::len)" and i: "i < LENGTH('a)"
  shows "\<not> recovered (flip_bit i (encoded h :: 'a word)) \<le> 0xFFFF"
proof -
  let ?x = "recovered (flip_bit i (encoded h :: 'a word))"
  have x: "?x = ucast h XOR (push_bit i 1 XOR push_bit (LENGTH('a) - 16) (push_bit i 1))"
    using L by (simp add: flip_bit_def recovered_xor recovered_encoded)
  have h: "\<And>j. 16 \<le> j \<Longrightarrow> \<not> bit (ucast h :: 'a word) j"
    by (auto simp: bit_simps dest: bit_imp_le_length)
  show ?thesis
  proof (cases "i < 16")
    case True
    define j where "j = i + (LENGTH('a) - 16)"
    have j: "j < LENGTH('a)" "16 \<le> j" "j \<noteq> i" "j = LENGTH('a) - 16 + i"
      using True L by (simp_all add: j_def)
    have "bit ?x j"
      unfolding x using j(1,2,3) h[of j] by (simp add: bit_simps) (simp add: j(4))
    then show ?thesis using L j by (intro not_le_FFFF_bit[where j = j]) simp_all
  next
    case False
    have "bit ?x i"
      unfolding x using False L i h[of i] by (simp add: bit_simps) arith
    then show ?thesis using L False by (intro not_le_FFFF_bit[where j = i]) simp_all
  qed
qed

lemma card_passing:
  assumes L: "32 \<le> LENGTH('a::len)"
  shows "card {w::'a word. \<not> recovered w > 0xFFFF} = 2 ^ 16"
proof -
  have "{w::'a word. \<not> recovered w > 0xFFFF} = range encoded"
    using L by (auto simp: not_less valid_iff_encoded ucast_encoded)
  moreover have "inj (encoded :: uint16_t \<Rightarrow> 'a word)"
    by (rule inj_on_inverseI[where g = ucast]) (simp add: ucast_encoded L)
  ultimately show ?thesis by (simp add: card_image card_word)
qed

text \<open>
  C1: for every 16-bit offset \<open>h\<close>, in the plain and in the hardened build, on every
  target whose \<open>size_t\<close> has at least 32 bits (so on both targets the source
  distinguishes), \<open>follow_next\<close> on the block that \<open>store_next\<close> just wrote returns
  exactly \<open>h\<close> and does not take the fatal path.
\<close>
theorem store_next_follow_next:
  assumes "32 \<le> LENGTH('a::len)"
  shows "follow_next b (store_next b (mem :: 'a memory) p h) p = Inr h"
  using assms
  by (simp add: follow_next_def store_next_def encoded_passes ucast_encoded ucast_ucast_16)

text \<open>
  On a 64-bit target in the hardened build and on a 32-bit target in the plain build.
\<close>

theorem store_next_follow_next_witness:
  "follow_next hardened_debug
     (store_next hardened_debug zeroed_mem 0x7F0000010040 0x1234) 0x7F0000010040 = Inr 0x1234
   \<and> follow_next plain_debug
     (store_next plain_debug (\<lambda>a. 0 :: 32 word) 0x10040 0xFFFF) 0x10040 = Inr 0xFFFF"
proof
  show "follow_next hardened_debug
     (store_next hardened_debug zeroed_mem 0x7F0000010040 0x1234) 0x7F0000010040 = Inr 0x1234"
    by (rule store_next_follow_next) simp
  show "follow_next plain_debug
     (store_next plain_debug (\<lambda>a. 0 :: 32 word) 0x10040 0xFFFF) 0x10040 = Inr 0xFFFF"
    by (rule store_next_follow_next) simp
qed

text \<open>
  C2: in the hardened build, flipping any single bit \<open>i\<close> of the word that \<open>store_next\<close>
  wrote for any offset \<open>h\<close> makes \<open>follow_next\<close> take the fatal use-after-free path. No
  flipped word still decodes, so the exception the specification allows for is empty.
\<close>
theorem single_bit_corruption_detected:
  assumes "32 \<le> LENGTH('a::len)" and "CHECK_CLIENT b" and "i < LENGTH('a)"
  shows "follow_next b
           ((store_next b (mem :: 'a memory) p h)(p := flip_bit i (store_next b mem p h p))) p
         = Inl UseAfterFree"
  using assms flipped_detected[of i h, where 'a = 'a]
  by (simp add: follow_next_def store_next_def not_le)

text \<open>
  Bit 3 of an encoded word on a 64-bit target, bit 31 on a 32-bit target.
\<close>

theorem single_bit_corruption_detected_witness:
  "follow_next hardened_debug
     (zeroed_mem(0x7F0000010040 := flip_bit 3 (encoded 0x1234))) 0x7F0000010040
   = Inl UseAfterFree
   \<and> follow_next hardened_debug
     ((\<lambda>a. 0 :: 32 word)(0x10040 := flip_bit 31 (encoded 0x1234))) 0x10040
   = Inl UseAfterFree"
proof -
  have cc: "CHECK_CLIENT hardened_debug" by (simp add: hardened_debug_def)
  have "follow_next hardened_debug
     ((store_next hardened_debug zeroed_mem 0x7F0000010040 0x1234)
        (0x7F0000010040 :=
           flip_bit 3 (store_next hardened_debug zeroed_mem 0x7F0000010040 0x1234 0x7F0000010040)))
     0x7F0000010040 = Inl UseAfterFree"
    by (rule single_bit_corruption_detected[OF _ cc]) simp_all
  moreover have "follow_next hardened_debug
     ((store_next hardened_debug (\<lambda>a. 0 :: 32 word) 0x10040 0x1234)
        (0x10040 := flip_bit 31 (store_next hardened_debug (\<lambda>a. 0) 0x10040 0x1234 0x10040)))
     0x10040 = Inl UseAfterFree"
    by (rule single_bit_corruption_detected[OF _ cc]) simp_all
  ultimately show ?thesis
    by (simp add: store_next_def cc)
qed

text \<open>
  C7: in the hardened build \<open>follow_next\<close> fails with the use-after-free diagnostic exactly
  when the recovered value (the stored word with the transform of \<open>store_next\<close> undone)
  has a bit set above the low 16, and otherwise returns the low 16 bits of the recovered
  value; the recovered value of an encoded offset is that offset.
\<close>
theorem follow_next_hardened:
  assumes "32 \<le> LENGTH('a::len)" and "CHECK_CLIENT b"
  shows "follow_next b (mem :: 'a memory) node =
           (if drop_bit 16 (recovered (mem node)) \<noteq> 0 then Inl UseAfterFree
            else Inr (ucast (recovered (mem node))))
         \<and> recovered (encoded h :: 'a word) = ucast h"
  using assms
  by (simp add: follow_next_def Let_def not_le[symmetric] le_FFFF_drop_bit ucast_recovered
      recovered_encoded)

text \<open>
  A block holding an encoded offset, a block holding a raw value, and the 32-bit transform.
\<close>

theorem follow_next_hardened_witness:
  "follow_next hardened_debug two_free_mem 0x7F0000010500 = Inr 1152
   \<and> recovered (two_free_mem 0x7F0000010500) = 1152
   \<and> follow_next hardened_debug stale_write_mem 0x7F0000010500 = Inl UseAfterFree
   \<and> drop_bit 16 (recovered (stale_write_mem 0x7F0000010500)) = 0xDB2CBEEFDEAD
   \<and> recovered (encoded 0xFFFF :: 32 word) = 0xFFFF"
proof -
  have L: "32 \<le> LENGTH(64)" "32 \<le> LENGTH(32)" by simp_all
  have cc: "CHECK_CLIENT hardened_debug" by (simp add: hardened_debug_def)
  have 1: "recovered (two_free_mem 0x7F0000010500) = 1152"
    by (simp add: two_free_mem_def recovered_def encoded_def POISON_def)
  have 2: "drop_bit 16 (recovered (stale_write_mem 0x7F0000010500)) = 0xDB2CBEEFDEAD"
    by (simp add: stale_write_mem_def recovered_def POISON_def drop_bit_eq_div)
  show ?thesis
    using follow_next_hardened[OF L(1) cc, of two_free_mem "0x7F0000010500"]
      follow_next_hardened[OF L(1) cc, of stale_write_mem "0x7F0000010500"]
      follow_next_hardened[OF L(2) cc, of "\<lambda>a. 0" 0 "0xFFFF"]
    by (simp add: 1 2)
qed

text \<open>
  C9: in the hardened build the check of \<open>follow_next\<close> is exact. It returns \<open>h\<close> if and
  only if the stored word is the encoding of \<open>h\<close>; it takes the fatal path if and only if
  the word is the encoding of no offset; and exactly \<open>2 ^ 16\<close> words pass.
\<close>
theorem follow_next_accepts_exactly_encodings:
  assumes "32 \<le> LENGTH('a::len)" and "CHECK_CLIENT b"
  shows "((follow_next b (mem :: 'a memory) p = Inr h) = (mem p = encoded h))
         \<and> ((follow_next b mem p = Inl UseAfterFree) = (mem p \<notin> range encoded))
         \<and> card {w :: 'a word. \<exists>h. follow_next b (\<lambda>a. w) p = Inr h} = 2 ^ 16"
proof -
  have v: "\<And>w :: 'a word. (\<not> recovered w > 0xFFFF) = (w = encoded (ucast w))"
    using assms(1) by (simp add: not_less valid_iff_encoded)
  have 1: "(follow_next b mem p = Inr h) = (mem p = encoded h)"
    using assms ucast_encoded[of h, where 'a = 'a] v[of "mem p"]
    by (auto simp: follow_next_def Let_def)
  have 2: "(follow_next b mem p = Inl UseAfterFree) = (mem p \<notin> range encoded)"
    using assms v[of "mem p"] ucast_encoded[where 'a = 'a]
    by (auto simp: follow_next_def Let_def)
  have "{w :: 'a word. \<exists>h. follow_next b (\<lambda>a. w) p = Inr h} = {w. \<not> recovered w > 0xFFFF}"
    using assms by (auto simp: follow_next_def Let_def)
  then have 3: "card {w :: 'a word. \<exists>h. follow_next b (\<lambda>a. w) p = Inr h} = 2 ^ 16"
    using assms(1) by (simp only: card_passing)
  from 1 2 3 show ?thesis by blast
qed

text \<open>
  The encoded word is accepted, the raw value 1409 is the encoding of no offset, and on both
  targets 65536 words pass.
\<close>

theorem follow_next_accepts_exactly_encodings_witness:
  "follow_next hardened_debug two_free_mem 0x7F0000010500 = Inr 1152
   \<and> follow_next hardened_debug stale_write_mem 0x7F0000010500 = Inl UseAfterFree
   \<and> (1409 :: 64 word) \<notin> range encoded
   \<and> card {w :: 64 word. \<exists>h. follow_next hardened_debug (\<lambda>a. w) 0 = Inr h} = 65536
   \<and> card {w :: 32 word. \<exists>h. follow_next hardened_debug (\<lambda>a. w) 0 = Inr h} = 65536"
proof -
  have L: "32 \<le> LENGTH(64)" "32 \<le> LENGTH(32)" by simp_all
  have cc: "CHECK_CLIENT hardened_debug" by (simp add: hardened_debug_def)
  have 1: "two_free_mem 0x7F0000010500 = encoded 1152" by (simp add: two_free_mem_def)
  have 2: "follow_next hardened_debug stale_write_mem 0x7F0000010500 = Inl UseAfterFree"
    by (simp add: follow_next_def hardened_debug_def stale_write_mem_def recovered_def POISON_def)
  have 3: "stale_write_mem 0x7F0000010500 = 1409" by (simp add: stale_write_mem_def)
  have c64: "card {w :: 64 word. \<exists>h. follow_next hardened_debug (\<lambda>a. w) 0 = Inr h} = 65536"
    using follow_next_accepts_exactly_encodings[where p = "0 :: 64 word", OF L(1) cc,
        THEN conjunct2, THEN conjunct2]
    by simp
  have c32: "card {w :: 32 word. \<exists>h. follow_next hardened_debug (\<lambda>a. w) 0 = Inr h} = 65536"
    using follow_next_accepts_exactly_encodings[where p = "0 :: 32 word", OF L(2) cc,
        THEN conjunct2, THEN conjunct2]
    by simp
  have 4: "follow_next hardened_debug two_free_mem 0x7F0000010500 = Inr 1152"
    using follow_next_accepts_exactly_encodings[OF L(1) cc, of two_free_mem "0x7F0000010500" 1152]
    by (simp add: 1)
  have 5: "(1409 :: 64 word) \<notin> range encoded"
    using follow_next_accepts_exactly_encodings[OF L(1) cc, of stale_write_mem "0x7F0000010500"]
    by (simp add: 2 3)
  from 2 4 5 c64 c32 show ?thesis by blast
qed

section \<open>Marking a slab full\<close>

lemma cfg_simps:
  "SLAB_SIZE (a, b, c, d) = a" "sizeclass_to_size (a, b, c, d) = b"
  "get_initial_link (a, b, c, d) = c" "remove_cache_friendly_offset (a, b, c, d) = d"
  by (simp_all add: SLAB_SIZE_def sizeclass_to_size_def get_initial_link_def
      remove_cache_friendly_offset_def)

text \<open>
  C8: for a slab of more than one byte, \<open>set_full\<close> called with \<open>head = 1\<close> and
  \<open>link \<noteq> 1\<close> passes both assertions and leaves \<open>link = 1\<close>, so that \<open>is_full\<close>
  holds, with \<open>used\<close>, \<open>head\<close>, \<open>sizeclass\<close> and \<open>next\<close> unchanged; in a debug build,
  calling it with \<open>head \<noteq> 1\<close> or with \<open>link = 1\<close> fails an assertion.
\<close>
theorem set_full_marks_full:
  assumes "1 < SLAB_SIZE (cfg :: 'a::len config)"
  shows "(head m = 1 \<and> link m \<noteq> 1 \<longrightarrow>
            (\<exists>m'. set_full b cfg m = Inr m' \<and> link m' = 1 \<and> is_full m'
                  \<and> used m' = used m \<and> head m' = head m
                  \<and> sizeclass m' = sizeclass m \<and> next m' = next m))
         \<and> (\<not> NDEBUG b \<and> (head m \<noteq> 1 \<or> link m = 1) \<longrightarrow>
              set_full b cfg m = Inl AssertionFailure)"
proof -
  have "(1 :: 'a word) mod SLAB_SIZE cfg = 1"
    using assms by (rule mod_word_less)
  then have "Mod_assign (SLAB_SIZE cfg) 1 = 1"
    by (simp add: Mod_assign_def)
  then show ?thesis
    by (auto simp: set_full_def is_full_def)
qed

text \<open>
  The last step of filling a short slab, and the two ways of calling \<open>set_full\<close> out of
  turn.
\<close>

theorem set_full_marks_full_witness:
  "1 < SLAB_SIZE (short_slab_cfg :: 64 config)
   \<and> set_full hardened_debug (short_slab_cfg :: 64 config)
        \<lparr>used = 1007, head = 1, link = 1024, sizeclass = 0, next = 0\<rparr>
      = Inr \<lparr>used = 1007, head = 1, link = 1, sizeclass = 0, next = 0\<rparr>
   \<and> set_full hardened_debug (short_slab_cfg :: 64 config) fresh = Inl AssertionFailure
   \<and> set_full hardened_debug (short_slab_cfg :: 64 config) all_used = Inl AssertionFailure"
proof -
  have S: "1 < SLAB_SIZE (short_slab_cfg :: 64 config)"
    by (simp add: short_slab_cfg_def cfg_simps)
  have "\<exists>m'. set_full hardened_debug (short_slab_cfg :: 64 config)
        \<lparr>used = 1007, head = 1, link = 1024, sizeclass = 0, next = 0\<rparr> = Inr m' \<and> link m' = 1
        \<and> used m' = 1007 \<and> head m' = 1 \<and> sizeclass m' = 0 \<and> next m' = 0"
    using set_full_marks_full[OF S, of "\<lparr>used = 1007, head = 1, link = 1024, sizeclass = 0, next = 0\<rparr>"
        hardened_debug]
    by auto
  then have 1: "set_full hardened_debug (short_slab_cfg :: 64 config)
        \<lparr>used = 1007, head = 1, link = 1024, sizeclass = 0, next = 0\<rparr>
      = Inr \<lparr>used = 1007, head = 1, link = 1, sizeclass = 0, next = 0\<rparr>"
    by auto
  have 2: "set_full hardened_debug (short_slab_cfg :: 64 config) fresh = Inl AssertionFailure"
    using set_full_marks_full[OF S, of fresh hardened_debug]
    by (simp add: fresh_def hardened_debug_def)
  have 3: "set_full hardened_debug (short_slab_cfg :: 64 config) all_used = Inl AssertionFailure"
    using set_full_marks_full[OF S, of all_used hardened_debug]
    by (simp add: all_used_def hardened_debug_def)
  from S 1 2 3 show ?thesis by blast
qed

section \<open>The cycle check\<close>

lemma follow_next_cases:
  "follow_next b mem (pointer_offset slab c) =
     (if decodes b mem slab c then Inr (next_offset mem slab c) else Inl UseAfterFree)"
  by (simp add: decodes_def follow_next_def next_offset_def Let_def)

lemma decodes_plain: "\<not> CHECK_CLIENT b \<Longrightarrow> decodes b mem slab c"
  by (simp add: decodes_def follow_next_def)

lemma segment_0 [simp]: "segment mem slab h 0 = h"
  by (simp add: segment_def)

lemma segment_Suc: "segment mem slab h (Suc n) = next_offset mem slab (segment mem slab h n)"
  by (simp add: segment_def)

lemma segment_add: "segment mem slab h (n + k) = segment mem slab (segment mem slab h n) k"
  by (simp add: segment_def funpow_add add.commute)

lemma acyclic_loop_unfold:
  "acyclic_loop b mem slab c s both =
     (if bump_tagged c then Some (Inr ())
      else if \<not> decodes b mem slab c \<or> (both \<and> \<not> decodes b mem slab s)
        then Some (Inl UseAfterFree)
      else if next_offset mem slab c = (if both then next_offset mem slab s else s)
        then Some (Inl DoubleFree)
      else acyclic_loop b mem slab (next_offset mem slab c)
             (if both then next_offset mem slab s else s) (\<not> both))"
  by (subst acyclic_loop.simps) (simp add: follow_next_cases bump_tagged_def)

lemma acyclic_loop_step:
  "acyclic_loop b mem slab (segment mem slab h k) (segment mem slab h (k div 2)) (odd k) =
     (if stops b mem slab h k then Some (outcome b mem slab h k)
      else acyclic_loop b mem slab (segment mem slab h (Suc k))
             (segment mem slab h (Suc k div 2)) (odd (Suc k)))"
proof -
  have 1: "next_offset mem slab (segment mem slab h k) = segment mem slab h (Suc k)"
    by (simp add: segment_Suc)
  have 2: "(if odd k then next_offset mem slab (segment mem slab h (k div 2))
            else segment mem slab h (k div 2)) = segment mem slab h (Suc k div 2)"
    by (simp add: segment_Suc[symmetric])
  have 4: "odd (Suc k) = (\<not> odd k)" by simp
  have "acyclic_loop b mem slab (segment mem slab h k) (segment mem slab h (k div 2)) (odd k) =
     (if bump_tagged (segment mem slab h k) then Some (Inr ())
      else if \<not> decodes b mem slab (segment mem slab h k)
              \<or> (odd k \<and> \<not> decodes b mem slab (segment mem slab h (k div 2)))
        then Some (Inl UseAfterFree)
      else if segment mem slab h (Suc k) = segment mem slab h (Suc k div 2)
        then Some (Inl DoubleFree)
      else acyclic_loop b mem slab (segment mem slab h (Suc k))
             (segment mem slab h (Suc k div 2)) (odd (Suc k)))"
    unfolding 4 
    by (subst acyclic_loop_unfold) (simp only: 1 2)
  also have "\<dots> = (if stops b mem slab h k then Some (outcome b mem slab h k)
      else acyclic_loop b mem slab (segment mem slab h (Suc k))
             (segment mem slab h (Suc k div 2)) (odd (Suc k)))"
    unfolding stops_def outcome_def by (simp only: split: if_split) blast
  finally show ?thesis .
qed

lemma acyclic_loop_runs:
  assumes "stops b mem slab h K" and "\<forall>j. k \<le> j \<and> j < K \<longrightarrow> \<not> stops b mem slab h j" and "k \<le> K"
  shows "acyclic_loop b mem slab (segment mem slab h k) (segment mem slab h (k div 2)) (odd k)
         = Some (outcome b mem slab h K)"
  using assms(3,2)
proof (induction rule: inc_induct)
  case base
  then show ?case using assms(1) by (simp only: acyclic_loop_step[of b mem slab h K] if_True)
next
  case (step n)
  have "\<not> stops b mem slab h n" using step.prems step.hyps by simp
  moreover have "acyclic_loop b mem slab (segment mem slab h (Suc n))
       (segment mem slab h (Suc n div 2)) (odd (Suc n)) = Some (outcome b mem slab h K)"
    using step.IH step.prems by simp
  ultimately show ?case by (simp only: acyclic_loop_step[of b mem slab h n] if_False)
qed

lemma segment_shift:
  assumes "segment mem slab h i = segment mem slab h j"
  shows "segment mem slab h (i + d) = segment mem slab h (j + d)"
  using assms by (simp add: segment_add)

lemma first_bump_distinct:
  assumes "bump_tagged (segment mem slab h n)"
    and "\<forall>i<n. \<not> bump_tagged (segment mem slab h i)"
    and "i < j" and "j \<le> n"
  shows "segment mem slab h i \<noteq> segment mem slab h j"
proof
  assume "segment mem slab h i = segment mem slab h j"
  then have "segment mem slab h (i + (n - j)) = segment mem slab h (j + (n - j))"
    by (rule segment_shift)
  then have "bump_tagged (segment mem slab h (i + (n - j)))"
    using assms(1,4) by simp
  moreover have "i + (n - j) < n" using assms(3,4) by arith
  ultimately show False using assms(2) by blast
qed

lemma segment_periodic:
  assumes eq: "segment mem slab h i = segment mem slab h j" and "i < j" and "i \<le> n"
  shows "segment mem slab h (n + c * (j - i)) = segment mem slab h n"
proof (induction c)
  case 0
  show ?case by simp
next
  case (Suc c)
  obtain d where d: "n + c * (j - i) = i + d"
    using assms(3) by (metis le_add_diff_inverse trans_le_add1)
  have "n + Suc c * (j - i) = j + d"
    using d assms(2) by simp
  then have "segment mem slab h (n + Suc c * (j - i)) = segment mem slab h (j + d)"
    by simp
  also have "\<dots> = segment mem slab h (i + d)"
    using segment_shift[OF eq, of d] by simp
  also have "\<dots> = segment mem slab h n"
    using Suc.IH d by simp
  finally show ?case .
qed

lemma segment_revisits: "\<exists>i j. i < j \<and> segment mem slab h i = segment mem slab h j"
proof -
  have "finite (range (segment mem slab h))" by (rule finite_subset[OF subset_UNIV]) simp
  then have "\<not> inj (segment mem slab h)"
    using finite_imageD[of "segment mem slab h" UNIV] infinite_UNIV_nat by blast
  then obtain i j where "i \<noteq> j" "segment mem slab h i = segment mem slab h j"
    by (auto simp: inj_on_def)
  then show ?thesis
    by (cases "i < j") (force simp: not_less le_less)+
qed

lemma hare_meets_tortoise: "\<exists>K. segment mem slab h (Suc K) = segment mem slab h (Suc K div 2)"
proof -
  obtain i j where ij: "i < j" "segment mem slab h i = segment mem slab h j"
    using segment_revisits by blast
  define n where "n = Suc i * (j - i)"
  have "Suc i * 1 \<le> Suc i * (j - i)"
    using ij(1) by (intro mult_le_mono2) simp
  then have n: "i \<le> n" "0 < n"
    by (simp_all add: n_def)
  have "segment mem slab h (n + Suc i * (j - i)) = segment mem slab h n"
    using segment_periodic[OF ij(2) ij(1) n(1)] .
  moreover have "n + Suc i * (j - i) = 2 * n"
    unfolding n_def by (simp only: mult_2)
  ultimately have "segment mem slab h (2 * n) = segment mem slab h n"
    by (simp only:)
  moreover obtain K where "2 * n = Suc K" using n(2) by (cases "2 * n") simp_all
  moreover have "Suc K div 2 = n" using calculation(2) by arith
  ultimately show ?thesis by metis
qed

lemma stops_exists: "\<exists>K. stops b mem slab h K"
  using hare_meets_tortoise[of mem slab h] by (auto simp: stops_def)

lemma acyclic_loop_total:
  "acyclic_loop b mem slab h h False
     = Some (outcome b mem slab h (LEAST K. stops b mem slab h K))"
proof -
  let ?K = "LEAST K. stops b mem slab h K"
  have 1: "stops b mem slab h ?K" using stops_exists by (rule exE) (rule LeastI)
  have 2: "\<forall>j. 0 \<le> j \<and> j < ?K \<longrightarrow> \<not> stops b mem slab h j"
    using not_less_Least by blast
  show ?thesis
    using acyclic_loop_runs[OF 1 2] by simp
qed

lemma stops_before_bump:
  assumes n: "bump_tagged (segment mem slab h n)" "\<forall>i<n. \<not> bump_tagged (segment mem slab h i)"
    and ok: "\<forall>i<n. decodes b mem slab (segment mem slab h i)"
    and k: "k < n"
  shows "\<not> stops b mem slab h k"
proof -
  have "segment mem slab h (Suc k div 2) \<noteq> segment mem slab h (Suc k)"
    using first_bump_distinct[OF n, of "Suc k div 2" "Suc k"] k by simp
  moreover have "k div 2 < n" using k by arith
  ultimately show ?thesis
    using n(2) ok k by (auto simp: stops_def)
qed

lemma outcome_acyclic:
  assumes n: "bump_tagged (segment mem slab h n)" "\<forall>i<n. \<not> bump_tagged (segment mem slab h i)"
    and ok: "\<forall>i<n. decodes b mem slab (segment mem slab h i)"
  shows "acyclic_loop b mem slab h h False = Some (Inr ())"
proof -
  have 1: "stops b mem slab h n" using n(1) by (simp add: stops_def)
  have 2: "\<forall>j. 0 \<le> j \<and> j < n \<longrightarrow> \<not> stops b mem slab h j"
    using stops_before_bump[OF n ok] by blast
  show ?thesis
    using acyclic_loop_runs[OF 1 2] n(1) by (simp add: outcome_def)
qed

lemma outcome_cyclic:
  assumes "\<forall>n. \<not> bump_tagged (segment mem slab h n)"
    and "\<forall>n. decodes b mem slab (segment mem slab h n)"
  shows "acyclic_loop b mem slab h h False = Some (Inl DoubleFree)"
  using assms by (simp add: acyclic_loop_total outcome_def)

lemma outcome_range:
  "outcome b mem slab h K \<in> {Inr (), Inl DoubleFree, Inl UseAfterFree}"
  "outcome b mem slab h K = Inl UseAfterFree \<Longrightarrow> CHECK_CLIENT b"
  using decodes_plain[of b mem slab] by (auto simp: outcome_def split: if_splits)

lemma free_list_ends_exists:
  assumes "bump_tagged (segment mem slab h n)"
  shows "\<exists>k. free_list_ends mem slab h k"
proof -
  let ?k = "LEAST k. bump_tagged (segment mem slab h k)"
  have "bump_tagged (segment mem slab h ?k)" using assms by (rule LeastI)
  moreover have "\<forall>i<?k. \<not> bump_tagged (segment mem slab h i)"
    using not_less_Least by blast
  ultimately show ?thesis unfolding free_list_ends_def by blast
qed

lemma outcome_use_after_free:
  assumes nb: "\<forall>j\<le>k. \<not> bump_tagged (segment mem slab h j)"
    and bad: "\<not> decodes b mem slab (segment mem slab h k)"
  shows "acyclic_loop b mem slab h h False = Some (Inl UseAfterFree)"
proof -
  define K where "K = (LEAST k. \<not> decodes b mem slab (segment mem slab h k))"
  have K: "\<not> decodes b mem slab (segment mem slab h K)"
    unfolding K_def using bad by (rule LeastI)
  have Kk: "K \<le> k" unfolding K_def using bad by (rule Least_le)
  have ok: "\<And>j. j < K \<Longrightarrow> decodes b mem slab (segment mem slab h j)"
    unfolding K_def using not_less_Least by blast
  have nbK: "\<And>j. j \<le> K \<Longrightarrow> \<not> bump_tagged (segment mem slab h j)"
    using nb Kk by simp
  have 1: "stops b mem slab h K" using K by (simp add: stops_def)
  have 2: "\<forall>j. 0 \<le> j \<and> j < K \<longrightarrow> \<not> stops b mem slab h j"
  proof (intro allI impI)
    fix j assume "0 \<le> j \<and> j < K"
    then have j: "j < K" by simp
    have "segment mem slab h (Suc j) \<noteq> segment mem slab h (Suc j div 2)"
    proof
      assume "segment mem slab h (Suc j) = segment mem slab h (Suc j div 2)"
      then have "segment mem slab h (Suc j div 2) = segment mem slab h (Suc j)" by simp
      then have "segment mem slab h (Suc j div 2 + (K - Suc j))
                 = segment mem slab h (Suc j + (K - Suc j))"
        by (rule segment_shift)
      moreover have "Suc j + (K - Suc j) = K" using j by simp
      moreover have "Suc j div 2 + (K - Suc j) < K" using j by arith
      ultimately show False using ok K by metis
    qed
    moreover have "j div 2 < K" using j by arith
    ultimately show "\<not> stops b mem slab h j"
      using nbK[of j] ok[of j] ok[of "j div 2"] j by (simp add: stops_def)
  qed
  show ?thesis
    using acyclic_loop_runs[OF 1 2] K nbK[of K] by (simp add: outcome_def)
qed

subsection \<open>The example slabs\<close>

lemma two_free_segment:
  "segment two_free_mem 0x7F0000010000 1280 0 = 1280"
  "segment two_free_mem 0x7F0000010000 1280 (Suc 0) = 1152"
  "segment two_free_mem 0x7F0000010000 1280 (Suc (Suc 0)) = 1409"
  by (simp_all add: segment_Suc next_offset_def pointer_offset_def two_free_mem_def
      encoded_def POISON_def)

lemma two_free_ends: "free_list_ends two_free_mem 0x7F0000010000 1280 (Suc (Suc 0))"
  by (simp add: free_list_ends_def less_Suc_eq two_free_segment bump_tagged_def)

lemma two_free_decodes:
  "decodes hardened_debug two_free_mem 0x7F0000010000 1280"
  "decodes hardened_debug two_free_mem 0x7F0000010000 1152"
  by (simp_all add: decodes_def follow_next_def pointer_offset_def two_free_mem_def
      hardened_debug_def recovered_def encoded_def POISON_def)

lemma double_free_segment: "segment double_free_mem 0x7F0000010000 1280 n = 1280"
  by (induction n)
     (simp_all add: segment_Suc next_offset_def pointer_offset_def double_free_mem_def
        encoded_def POISON_def)

lemma double_free_decodes: "decodes hardened_debug double_free_mem 0x7F0000010000 1280"
  by (simp add: decodes_def follow_next_def pointer_offset_def double_free_mem_def
      hardened_debug_def recovered_def encoded_def POISON_def)

lemma stale_write_fails:
  "\<not> decodes hardened_debug stale_write_mem 0x7F0000010000 1280"
  by (simp add: decodes_def follow_next_def pointer_offset_def
      stale_write_mem_def hardened_debug_def recovered_def POISON_def)

text \<open>
  C6 as stated fails in the hardened build: the segment of the overwritten slab goes from
  block 1280 straight to the bump cursor 1409, so it has no cycle, yet the check neither
  returns normally nor reports a double free; it stops in \<open>follow_next\<close>.
\<close>

theorem acyclic_segment_fails_use_after_free:
  "\<not> NDEBUG hardened_debug
   \<and> \<not> bump_tagged (segment stale_write_mem 0x7F0000010000 (head two_free) 0)
   \<and> bump_tagged (segment stale_write_mem 0x7F0000010000 (head two_free) (Suc 0))
   \<and> debug_slab_acyclic_free_list hardened_debug stale_write_mem two_free 0x7F0000010000
       = Some (Inl UseAfterFree)"
  apply (simp add: hardened_debug_def two_free_def segment_Suc next_offset_def pointer_offset_def
      stale_write_mem_def bump_tagged_def debug_slab_acyclic_free_list_def)
  apply (subst acyclic_loop.simps)
  apply (simp add: follow_next_def pointer_offset_def recovered_def POISON_def)
  done

text \<open>
  C6, amended: in a debug build \<open>debug_slab_acyclic_free_list\<close> returns on every slab
  content, and the segment from \<open>head\<close> determines its result. If a word that is read
  before any bump cursor is reached fails the check of \<open>follow_next\<close> (for some \<open>k\<close>,
  none of the offsets up to the \<open>k\<close>-th is a bump cursor and the word of the \<open>k\<close>-th
  block fails the check), it fails with the use-after-free diagnostic. If there is no
  such word and the segment reaches a bump cursor, it returns normally. If there is no
  such word and the segment never reaches a bump cursor, it fails with the double-free
  diagnostic. In the plain build every word passes: there the result is the normal return
  if the segment reaches a bump cursor and the double-free failure if it does not.
\<close>
theorem debug_slab_acyclic_free_list_terminates:
  assumes "\<not> NDEBUG b"
  shows "debug_slab_acyclic_free_list b mem m slab =
           Some (if \<exists>k. (\<forall>j\<le>k. \<not> bump_tagged (segment mem slab (head m) j))
                        \<and> \<not> decodes b mem slab (segment mem slab (head m) k)
                 then Inl UseAfterFree
                 else if \<exists>n. bump_tagged (segment mem slab (head m) n) then Inr ()
                 else Inl DoubleFree)
         \<and> (\<not> CHECK_CLIENT b \<longrightarrow>
              debug_slab_acyclic_free_list b mem m slab =
                Some (if \<exists>n. bump_tagged (segment mem slab (head m) n) then Inr ()
                      else Inl DoubleFree))"
proof -
  let ?x = "segment mem slab (head m)"
  let ?U = "\<exists>k. (\<forall>j\<le>k. \<not> bump_tagged (?x j)) \<and> \<not> decodes b mem slab (?x k)"
  have r: "debug_slab_acyclic_free_list b mem m slab = acyclic_loop b mem slab (head m) (head m) False"
    using assms by (simp add: debug_slab_acyclic_free_list_def)
  have main: "acyclic_loop b mem slab (head m) (head m) False =
           Some (if ?U then Inl UseAfterFree
                 else if \<exists>n. bump_tagged (?x n) then Inr ()
                 else Inl DoubleFree)"
  proof (cases ?U)
    case True
    then obtain k where "\<forall>j\<le>k. \<not> bump_tagged (?x j)" "\<not> decodes b mem slab (?x k)"
      by blast
    then have "acyclic_loop b mem slab (head m) (head m) False = Some (Inl UseAfterFree)"
      by (rule outcome_use_after_free)
    then show ?thesis using True by simp
  next
    case False
    show ?thesis
    proof (cases "\<exists>n. bump_tagged (?x n)")
      case True
      then obtain n where n: "free_list_ends mem slab (head m) n"
        using free_list_ends_exists by blast
      have "\<forall>i<n. decodes b mem slab (?x i)"
      proof (intro allI impI)
        fix i assume "i < n"
        then have "\<forall>j\<le>i. \<not> bump_tagged (?x j)" using n by (simp add: free_list_ends_def)
        then show "decodes b mem slab (?x i)" using False by blast
      qed
      then have "acyclic_loop b mem slab (head m) (head m) False = Some (Inr ())"
        using n outcome_acyclic[of mem slab "head m" n b] by (simp add: free_list_ends_def)
      then show ?thesis using True False by simp
    next
      case nb: False
      then have "\<forall>n. decodes b mem slab (?x n)" using False by blast
      then have "acyclic_loop b mem slab (head m) (head m) False = Some (Inl DoubleFree)"
        using nb outcome_cyclic[of mem slab "head m" b] by blast
      then show ?thesis using nb False by simp
    qed
  qed
  have plain: "\<not> CHECK_CLIENT b \<longrightarrow>
              acyclic_loop b mem slab (head m) (head m) False =
                Some (if \<exists>n. bump_tagged (?x n) then Inr () else Inl DoubleFree)"
  proof
    assume "\<not> CHECK_CLIENT b"
    then have "\<not> ?U" using decodes_plain[of b mem slab] by blast
    then show "acyclic_loop b mem slab (head m) (head m) False =
                Some (if \<exists>n. bump_tagged (?x n) then Inr () else Inl DoubleFree)"
      unfolding main by (simp only: if_False)
  qed
  show ?thesis unfolding r using main plain by (rule conjI)
qed

text \<open>
  In the hardened build the slab with two freed blocks passes, the slab with a block freed
  twice is reported as a double free and the slab with an overwritten word as a use after
  free; in the plain build the slab with a block freed twice is reported as well.
\<close>

theorem debug_slab_acyclic_free_list_terminates_witness:
  "\<not> NDEBUG hardened_debug
   \<and> debug_slab_acyclic_free_list hardened_debug two_free_mem two_free 0x7F0000010000
       = Some (Inr ())
   \<and> debug_slab_acyclic_free_list hardened_debug double_free_mem two_free 0x7F0000010000
       = Some (Inl DoubleFree)
   \<and> debug_slab_acyclic_free_list hardened_debug stale_write_mem two_free 0x7F0000010000
       = Some (Inl UseAfterFree)
   \<and> \<not> NDEBUG plain_debug \<and> \<not> CHECK_CLIENT plain_debug
   \<and> debug_slab_acyclic_free_list plain_debug double_free_mem two_free 0x7F0000010000
       = Some (Inl DoubleFree)"
proof -
  have nd: "\<not> NDEBUG hardened_debug" by (simp add: hardened_debug_def)
  have np: "\<not> NDEBUG plain_debug" "\<not> CHECK_CLIENT plain_debug"
    by (simp_all add: plain_debug_def)
  have h: "head two_free = 1280" by (simp add: two_free_def)
  have a1: "\<not> (\<exists>k. (\<forall>j\<le>k. \<not> bump_tagged (segment two_free_mem 0x7F0000010000 (head two_free) j))
                  \<and> \<not> decodes hardened_debug two_free_mem 0x7F0000010000
                         (segment two_free_mem 0x7F0000010000 (head two_free) k))"
  proof
    assume "\<exists>k. (\<forall>j\<le>k. \<not> bump_tagged (segment two_free_mem 0x7F0000010000 (head two_free) j))
                  \<and> \<not> decodes hardened_debug two_free_mem 0x7F0000010000
                         (segment two_free_mem 0x7F0000010000 (head two_free) k)"
    then obtain k where k: "\<forall>j\<le>k. \<not> bump_tagged (segment two_free_mem 0x7F0000010000 1280 j)"
      "\<not> decodes hardened_debug two_free_mem 0x7F0000010000
            (segment two_free_mem 0x7F0000010000 1280 k)"
      unfolding h by blast
    have "\<not> Suc (Suc 0) \<le> k"
      using k(1) two_free_ends by (auto simp: free_list_ends_def)
    then have "k = 0 \<or> k = Suc 0" by arith
    then show False using k(2) two_free_segment two_free_decodes by auto
  qed
  have a2: "\<exists>n. bump_tagged (segment two_free_mem 0x7F0000010000 (head two_free) n)"
    unfolding h using two_free_ends by (auto simp: free_list_ends_def)
  have c1: "\<not> (\<exists>k. (\<forall>j\<le>k. \<not> bump_tagged (segment double_free_mem 0x7F0000010000 (head two_free) j))
                  \<and> \<not> decodes hardened_debug double_free_mem 0x7F0000010000
                         (segment double_free_mem 0x7F0000010000 (head two_free) k))"
    unfolding h by (simp add: double_free_segment double_free_decodes)
  have c2: "\<not> (\<exists>n. bump_tagged (segment double_free_mem 0x7F0000010000 (head two_free) n))"
    unfolding h by (simp add: double_free_segment bump_tagged_def)
  have s1: "\<exists>k. (\<forall>j\<le>k. \<not> bump_tagged (segment stale_write_mem 0x7F0000010000 (head two_free) j))
                  \<and> \<not> decodes hardened_debug stale_write_mem 0x7F0000010000
                         (segment stale_write_mem 0x7F0000010000 (head two_free) k)"
    unfolding h by (rule exI[of _ 0]) (simp add: stale_write_fails bump_tagged_def)
  have 1: "debug_slab_acyclic_free_list hardened_debug two_free_mem two_free 0x7F0000010000
       = Some (Inr ())"
    using debug_slab_acyclic_free_list_terminates[OF nd, of two_free_mem two_free "0x7F0000010000"]
      a1 a2 by (simp only: if_True if_False simp_thms)
  have 2: "debug_slab_acyclic_free_list hardened_debug double_free_mem two_free 0x7F0000010000
       = Some (Inl DoubleFree)"
    using debug_slab_acyclic_free_list_terminates[OF nd, of double_free_mem two_free "0x7F0000010000"]
      c1 c2 by (simp only: if_True if_False simp_thms)
  have 3: "debug_slab_acyclic_free_list hardened_debug stale_write_mem two_free 0x7F0000010000
       = Some (Inl UseAfterFree)"
    using debug_slab_acyclic_free_list_terminates[OF nd, of stale_write_mem two_free "0x7F0000010000"]
      s1 by (simp only: if_True if_False simp_thms)
  have 4: "debug_slab_acyclic_free_list plain_debug double_free_mem two_free 0x7F0000010000
       = Some (Inl DoubleFree)"
    using debug_slab_acyclic_free_list_terminates[OF np(1), of double_free_mem two_free
        "0x7F0000010000", THEN conjunct2]
      np(2) c2 by (simp only: if_True if_False simp_thms)
  from nd np 1 2 3 4 show ?thesis by (intro conjI)
qed

section \<open>Reachable states\<close>

subsection \<open>Blocks and bump cursors\<close>






















subsection \<open>Words of other blocks\<close>





lemma segment_frame:
  assumes "\<forall>i<n. next_offset mem' slab (segment mem slab h i)
                   = next_offset mem slab (segment mem slab h i)"
    and "i \<le> n"
  shows "segment mem' slab h i = segment mem slab h i"
  using assms(2)
proof (induction i)
  case 0
  show ?case by simp
next
  case (Suc i)
  then have "segment mem' slab h i = segment mem slab h i" and "i < n" by simp_all
  then show ?case using assms(1) by (simp add: segment_Suc)
qed


subsection \<open>The free list\<close>






subsection \<open>The invariant and its preservation\<close>



















subsection \<open>Accounting\<close>











subsection \<open>The assertions of the checker\<close>








subsection \<open>Example runs\<close>






lemma tiny_blocks: "slab_blocks (tiny_cfg :: 64 config) 0 False = {0, 192, 128, 64}"
proof -
  have "block_count (tiny_cfg :: 64 config) 0 False = Suc (Suc (Suc (Suc 0)))"
    by (simp add: block_count_def first_block_def block_size_def tiny_cfg_def cfg_simps)
  then show ?thesis
    by (simp add: slab_blocks_def blocks_below_def block_at_def lessThan_Suc
        first_block_def block_size_def tiny_cfg_def cfg_simps insert_commute)
qed


text \<open>
  The two states of the scenario of the specification that the model does not reach fail
  the assertions of \<open>debug_slab_invariant\<close>: a freshly carved short slab whose bump
  cursor is on the first block, and a short slab marked full while its first block has not
  been handed out.
\<close>

lemma cursor_on_first_block_rejected:
  "debug_slab_invariant hardened_debug short_slab_cfg zeroed_mem
     \<lparr>used = 0, head = 1025, link = 1024, sizeclass = 0, next = 0\<rparr> True 0x7F0000010000
   = Some (Inl AssertionFailure)"
  apply (simp add: debug_slab_invariant_def debug_slab_acyclic_free_list_def is_full_def
      cfg_simps short_slab_cfg_def hardened_debug_def)
  apply (subst acyclic_loop.simps, simp)
  apply (subst invariant_walk.simps, simp add: invariant_tail_def cfg_simps is_full_def)
  done

lemma full_without_first_block_rejected:
  "debug_slab_invariant hardened_debug short_slab_cfg zeroed_mem
     \<lparr>used = 1007, head = 1, link = 1, sizeclass = 0, next = 0\<rparr> True 0x7F0000010000
   = Some (Inl AssertionFailure)"
  by (simp add: debug_slab_invariant_def is_full_def cfg_simps short_slab_cfg_def
      hardened_debug_def)

section \<open>Accounting, fullness and the free list in reachable states\<close>








end
